theory Spec2Isabelle
  imports Complex_Main
begin

section \<open>Data model of \<^verbatim>\<open>mr.py\<close>\<close>

text \<open>
  Ratings are Python floats. They are modelled as real numbers, so the rounding of the
  float operations is not part of the model; the one float operation of the source that
  can raise, \<^verbatim>\<open>10 ** x\<close>, keeps its \<^verbatim>\<open>OverflowError\<close>. The other operations
  (\<^verbatim>\<open>+\<close>, \<^verbatim>\<open>-\<close>, \<^verbatim>\<open>*\<close>, the division by 400 and by a number that is at least 1, and
  the comparisons) raise nothing on floats.

  A player is an object. Objects live in a store that maps a reference (an address) to the
  object it holds; a Python reference never dangles, so the store is a total function.
  Two players are the same player when their references are equal: \<^verbatim>\<open>EloPlayer\<close>
  defines no \<^verbatim>\<open>__eq__\<close>, so \<^verbatim>\<open>p != player\<close> compares identities.

  A function that mutates objects returns the store it leaves behind together with its
  value or the exception it raised: what a call has changed before it raises stays changed.
\<close>

record EloPlayer =
  rating :: real
  rating_history :: "real list"
  matches_played :: nat

type_synonym ref = nat

type_synonym heap = "ref \<Rightarrow> EloPlayer"

datatype error = IndexError | OverflowError

text \<open>\<^verbatim>\<open>EloPlayer.__init__\<close> (lines 7-10).\<close>

definition EloPlayer_init :: "real \<Rightarrow> EloPlayer" where
  "EloPlayer_init initial_rating =
     \<lparr>rating = initial_rating, rating_history = [initial_rating], matches_played = 0\<rparr>"

text \<open>
  The largest finite double, \<open>2 ^ 1024 - 2 ^ 971\<close>, and \<^verbatim>\<open>10 ** x\<close> for a finite
  float \<open>x\<close>: Python raises \<^verbatim>\<open>OverflowError\<close> when the power is too large for a double,
  and returns the power otherwise (a power too small for a double is returned as zero
  or nearly so, which is rounding).
\<close>

definition float_max :: real where
  "float_max = 2 ^ 1024 - 2 ^ 971"

definition float_pow10 :: "real \<Rightarrow> error + real" where
  "float_pow10 x = (if float_max < 10 powr x then Inl OverflowError else Inr (10 powr x))"

text \<open>
  \<^verbatim>\<open>EloPlayer.expected_score\<close> (lines 12-14). The subtraction and the division do not
  raise. A difference beyond the largest double is \<^verbatim>\<open>inf\<close> in Python; the exponent is
  then \<^verbatim>\<open>inf\<close>, \<^verbatim>\<open>10 ** inf\<close> is \<^verbatim>\<open>inf\<close> and no exception, and the result is
  \<^verbatim>\<open>1 / inf\<close>, zero, which is the real value up to rounding. For every other difference
  the exponent is finite and the power raises when it is too large.
\<close>

definition expected_score :: "EloPlayer \<Rightarrow> real \<Rightarrow> error + real" where
  "expected_score self opponent_rating =
     (let difference = opponent_rating - rating self
      in if float_max < difference
         then Inr (1 / (1 + 10 powr (difference / 400)))
         else case float_pow10 (difference / 400) of
                Inl e \<Rightarrow> Inl e
              | Inr p10 \<Rightarrow> Inr (1 / (1 + p10)))"

text \<open>
  \<^verbatim>\<open>EloPlayer.update_rating\<close> (lines 16-28): the call of \<^verbatim>\<open>expected_score\<close>, which may
  raise before anything is assigned, then the three assignments in the order of the
  source; the result is the mutated object and the returned change.
\<close>

definition update_rating :: "EloPlayer \<Rightarrow> real \<Rightarrow> real \<Rightarrow> real \<Rightarrow> error + EloPlayer \<times> real" where
  "update_rating self opponent_rating actual_score k_factor =
     (case expected_score self opponent_rating of
        Inl e \<Rightarrow> Inl e
      | Inr expected \<Rightarrow>
          (let rating_change = k_factor * (actual_score - expected);
               s1 = self\<lparr>rating := rating self + rating_change\<rparr>;
               s2 = s1\<lparr>rating_history := rating_history s1 @ [rating s1]\<rparr>;
               s3 = s2\<lparr>matches_played := matches_played s2 + 1\<rparr>
           in Inr (s3, rating_change)))"

text \<open>The default value of the parameter \<^verbatim>\<open>k_factor\<close> of \<^verbatim>\<open>update_rating\<close>.\<close>

definition default_k_factor :: real where
  "default_k_factor = 32"

text \<open>
  A method call \<^verbatim>\<open>p.update_rating(opponent_rating, actual_score)\<close> on the store: the
  object behind the reference is replaced by the mutated one and the change is returned,
  or the store is left as it is and the exception is passed on.
\<close>

definition call_update_rating ::
  "heap \<Rightarrow> ref \<Rightarrow> real \<Rightarrow> real \<Rightarrow> real \<Rightarrow> heap \<times> (error + real)" where
  "call_update_rating h p opponent_rating actual_score k_factor =
     (case update_rating (h p) opponent_rating actual_score k_factor of
        Inl e \<Rightarrow> (h, Inl e)
      | Inr (self', rating_change) \<Rightarrow> (h(p := self'), Inr rating_change))"

section \<open>Matchmaking\<close>

text \<open>
  \<^verbatim>\<open>random.choice(seq)\<close> raises \<^verbatim>\<open>IndexError\<close> on an empty sequence and otherwise
  returns \<^verbatim>\<open>seq[i]\<close> for an index \<open>i < len(seq)\<close> drawn by the generator. The draw is
  an explicit argument \<open>k\<close>, reduced modulo the length so that every \<open>k\<close> is a legal draw.
\<close>

definition choice :: "nat \<Rightarrow> 'a list \<Rightarrow> error + 'a" where
  "choice k seq = (if seq = [] then Inl IndexError else Inr (seq ! (k mod length seq)))"

record MatchmakingSystem =
  players :: "ref list"
  rating_range_percentage :: real

text \<open>\<^verbatim>\<open>MatchmakingSystem.__init__\<close> (lines 32-39), and the default of its parameter.\<close>

definition default_rating_range_percentage :: real where
  "default_rating_range_percentage = 2 / 10"

definition MatchmakingSystem_init :: "ref list \<Rightarrow> real \<Rightarrow> MatchmakingSystem" where
  "MatchmakingSystem_init ps pct = \<lparr>players = ps, rating_range_percentage = pct\<rparr>"

text \<open>
  The list \<^verbatim>\<open>potential_opponents\<close> that \<^verbatim>\<open>find_match\<close> builds (lines 47-59): the
  members in the band, or every member but the subject when that list is empty.
\<close>

definition potential_opponents :: "heap \<Rightarrow> MatchmakingSystem \<Rightarrow> ref \<Rightarrow> ref list" where
  "potential_opponents h self player =
     (let min_rating = rating (h player) * (1 - rating_range_percentage self);
          max_rating = rating (h player) * (1 + rating_range_percentage self);
          in_range = filter (\<lambda>p. p \<noteq> player \<and> min_rating \<le> rating (h p) \<and> rating (h p) \<le> max_rating)
                       (players self)
      in if in_range = [] then filter (\<lambda>p. p \<noteq> player) (players self) else in_range)"

text \<open>\<^verbatim>\<open>MatchmakingSystem.find_match\<close> (lines 41-62); \<open>k\<close> is the draw of its \<^verbatim>\<open>random.choice\<close>.\<close>

definition find_match :: "heap \<Rightarrow> MatchmakingSystem \<Rightarrow> nat \<Rightarrow> ref \<Rightarrow> error + ref" where
  "find_match h self k player = choice k (potential_opponents h self player)"

section \<open>One match\<close>

text \<open>
  The two calls of one branch of \<^verbatim>\<open>simulate_match\<close> (lines 74-75 and 78-79), in the
  order of the source: player1 is updated first, and the argument \<^verbatim>\<open>player1.rating\<close>
  of the second call is read from the store after the first call has changed it. When
  the first call raises, the second is not made. The value holds the two returned
  changes, which \<^verbatim>\<open>simulate_match\<close> itself drops.
\<close>

definition update_both ::
  "heap \<Rightarrow> ref \<Rightarrow> ref \<Rightarrow> real \<Rightarrow> real \<Rightarrow> heap \<times> (error + real \<times> real)" where
  "update_both h player1 player2 score1 score2 =
     (case call_update_rating h player1 (rating (h player2)) score1 default_k_factor of
        (h1, Inl e) \<Rightarrow> (h1, Inl e)
      | (h1, Inr change1) \<Rightarrow>
          (case call_update_rating h1 player2 (rating (h1 player1)) score2 default_k_factor of
             (h2, Inl e) \<Rightarrow> (h2, Inl e)
           | (h2, Inr change2) \<Rightarrow> (h2, Inr (change1, change2))))"

text \<open>\<^verbatim>\<open>simulate_match\<close> (lines 65-80); \<open>random_value\<close> is the draw of \<^verbatim>\<open>random.random()\<close>.\<close>

definition simulate_match :: "heap \<Rightarrow> real \<Rightarrow> ref \<Rightarrow> ref \<Rightarrow> heap \<times> (error + nat)" where
  "simulate_match h random_value player1 player2 =
     (case expected_score (h player1) (rating (h player2)) of
        Inl e \<Rightarrow> (h, Inl e)
      | Inr expected_score1 \<Rightarrow>
          if random_value < expected_score1
          then (case update_both h player1 player2 1 0 of
                  (h', Inl e) \<Rightarrow> (h', Inl e)
                | (h', Inr _) \<Rightarrow> (h', Inr 1))
          else (case update_both h player1 player2 0 1 of
                  (h', Inl e) \<Rightarrow> (h', Inl e)
                | (h', Inr _) \<Rightarrow> (h', Inr 2)))"

section \<open>The simulation\<close>

text \<open>The three draws of one round, in the order the round consumes them.\<close>

record draws =
  subject_draw :: nat
  opponent_draw :: nat
  outcome_draw :: real

text \<open>
  One iteration of the loop of \<^verbatim>\<open>monte_carlo_elo_simulation\<close> (lines 98-105). The
  players are local to the run, so an exception leaves nothing of the store behind.
\<close>

definition simulation_round ::
  "MatchmakingSystem \<Rightarrow> draws \<Rightarrow> heap \<times> nat list \<Rightarrow> error + heap \<times> nat list" where
  "simulation_round matchmaker d s =
     (case choice (subject_draw d) (players matchmaker) of
        Inl e \<Rightarrow> Inl e
      | Inr p1 \<Rightarrow>
          (case find_match (fst s) matchmaker (opponent_draw d) p1 of
             Inl e \<Rightarrow> Inl e
           | Inr p2 \<Rightarrow>
               (case simulate_match (fst s) (outcome_draw d) p1 p2 of
                  (h', Inl e) \<Rightarrow> Inl e
                | (h', Inr winner) \<Rightarrow> Inr (h', snd s @ [winner]))))"

fun run_matches ::
  "MatchmakingSystem \<Rightarrow> draws list \<Rightarrow> heap \<times> nat list \<Rightarrow> error + heap \<times> nat list" where
  "run_matches matchmaker [] s = Inr s"
| "run_matches matchmaker (d # ds) s =
     (case simulation_round matchmaker d s of
        Inl e \<Rightarrow> Inl e
      | Inr s' \<Rightarrow> run_matches matchmaker ds s')"

text \<open>
  \<^verbatim>\<open>monte_carlo_elo_simulation\<close> (lines 83-107). The players are allocated at the
  references \<open>0..<num_players\<close>; \<open>rng i\<close> holds the draws of round \<open>i\<close>. The result is
  the final state of each player of the list, and the list of winners.
\<close>

definition monte_carlo_elo_simulation ::
  "(nat \<Rightarrow> draws) \<Rightarrow> nat \<Rightarrow> nat \<Rightarrow> real \<Rightarrow> error + EloPlayer list \<times> nat list" where
  "monte_carlo_elo_simulation rng num_players num_matches initial_rating =
     (let h = (\<lambda>_. EloPlayer_init initial_rating);
          ps = [0..<num_players];
          matchmaker = MatchmakingSystem_init ps default_rating_range_percentage
      in case run_matches matchmaker (map rng [0..<num_matches]) (h, []) of
           Inl e \<Rightarrow> Inl e
         | Inr (h', match_results) \<Rightarrow> Inr (map h' ps, match_results))"

section \<open>Properties and inputs the statements use\<close>

text \<open>The history invariant of a player: one history entry per match played, and the first.\<close>

definition history_invariant :: "EloPlayer \<Rightarrow> bool" where
  "history_invariant p = (length (rating_history p) = matches_played p + 1)"

text \<open>
  The player after the three assignments of \<open>update_rating\<close>, for a rating change \<open>c\<close>.
\<close>

definition with_change :: "EloPlayer \<Rightarrow> real \<Rightarrow> EloPlayer" where
  "with_change self c =
     self\<lparr>rating := rating self + c,
          rating_history := rating_history self @ [rating self + c],
          matches_played := matches_played self + 1\<rparr>"

text \<open>
  A sequence of calls of \<open>update_rating\<close> on one player, each with its opponent rating,
  actual score and k-factor; a call that raises ends the sequence and leaves the player
  as it was.
\<close>

fun apply_updates :: "EloPlayer \<Rightarrow> (real \<times> real \<times> real) list \<Rightarrow> EloPlayer" where
  "apply_updates p [] = p"
| "apply_updates p ((opp, a, k) # us) =
     (case update_rating p opp a k of
        Inl e \<Rightarrow> p
      | Inr (p', change) \<Rightarrow> apply_updates p' us)"

text \<open>
  The rating band of \<open>find_match\<close> as a predicate on a member: its rating lies between
  \<open>rating * (1 - percentage)\<close> and \<open>rating * (1 + percentage)\<close> of the subject, bounds included.
\<close>

definition in_band :: "heap \<Rightarrow> MatchmakingSystem \<Rightarrow> ref \<Rightarrow> ref \<Rightarrow> bool" where
  "in_band h self player p \<longleftrightarrow>
     rating (h player) * (1 - rating_range_percentage self) \<le> rating (h p) \<and>
     rating (h p) \<le> rating (h player) * (1 + rating_range_percentage self)"

text \<open>
  Two variants of \<open>update_both\<close> that are not in the source; the source is compared with
  them. The first follows the words of the specification: both opponent ratings are
  captured before either update. The second makes the two calls of the source in the
  opposite order, player2 first, each argument still read when its call is made.
\<close>

definition update_both_prematch ::
  "heap \<Rightarrow> ref \<Rightarrow> ref \<Rightarrow> real \<Rightarrow> real \<Rightarrow> heap \<times> (error + real \<times> real)" where
  "update_both_prematch h player1 player2 score1 score2 =
     (let rating1 = rating (h player1);
          rating2 = rating (h player2)
      in case call_update_rating h player1 rating2 score1 default_k_factor of
           (h1, Inl e) \<Rightarrow> (h1, Inl e)
         | (h1, Inr change1) \<Rightarrow>
             (case call_update_rating h1 player2 rating1 score2 default_k_factor of
                (h2, Inl e) \<Rightarrow> (h2, Inl e)
              | (h2, Inr change2) \<Rightarrow> (h2, Inr (change1, change2))))"

definition update_both_reversed ::
  "heap \<Rightarrow> ref \<Rightarrow> ref \<Rightarrow> real \<Rightarrow> real \<Rightarrow> heap \<times> (error + real \<times> real)" where
  "update_both_reversed h player1 player2 score1 score2 =
     (case call_update_rating h player2 (rating (h player1)) score2 default_k_factor of
        (h1, Inl e) \<Rightarrow> (h1, Inl e)
      | (h1, Inr change2) \<Rightarrow>
          (case call_update_rating h1 player1 (rating (h1 player2)) score1 default_k_factor of
             (h2, Inl e) \<Rightarrow> (h2, Inl e)
           | (h2, Inr change1) \<Rightarrow> (h2, Inr (change1, change2))))"

text \<open>Concrete inputs: a store of fresh players rated 1500, and draws that are all zero.\<close>

definition h1500 :: heap where
  "h1500 = (\<lambda>_. EloPlayer_init 1500)"

definition first_draws :: "nat \<Rightarrow> draws" where
  "first_draws i = \<lparr>subject_draw = 0, opponent_draw = 0, outcome_draw = 0\<rparr>"

text \<open>Three players rated 1500, 1600 and 3000 at the references 3, 4 and 5.\<close>

definition h_three :: heap where
  "h_three = (\<lambda>_. EloPlayer_init 1500)(4 := EloPlayer_init 1600, 5 := EloPlayer_init 3000)"

definition mm_three :: MatchmakingSystem where
  "mm_three = MatchmakingSystem_init [3, 4, 5] default_rating_range_percentage"

text \<open>A population of one.\<close>

definition mm_one :: MatchmakingSystem where
  "mm_one = MatchmakingSystem_init [0] default_rating_range_percentage"

section \<open>The rating model\<close>

lemma complement_fraction:
  fixes y :: real
  assumes "0 < y"
  shows "1 / (1 + y) + 1 / (1 + 1 / y) = 1"
proof -
  have nz: "1 + y \<noteq> 0" "y \<noteq> 0"
    using assms by simp_all
  have "1 / (1 + 1 / y) = y / (1 + y)"
    using nz by (simp add: field_simps)
  moreover have "1 / (1 + y) + y / (1 + y) = (1 + y) / (1 + y)"
    by (simp only: add_divide_distrib)
  moreover have "(1 + y) / (1 + y) = 1"
    using nz by simp
  ultimately show ?thesis by simp
qed

lemma expected_score_complement:
  "1 / (1 + (10::real) powr x) + 1 / (1 + 10 powr (- x)) = 1"
proof -
  have pos: "0 < (10::real) powr x" by simp
  have inv: "(10::real) powr (- x) = 1 / 10 powr x"
    by (simp add: powr_minus inverse_eq_divide)
  show ?thesis
    unfolding inv by (rule complement_fraction [OF pos])
qed

lemma ten_308_fits: "(10::real) ^ 308 \<le> float_max"
  unfolding float_max_def by simp

lemma ten_309_overflows: "float_max < (10::real) ^ 309"
  unfolding float_max_def by simp

lemma float_pow10_fits:
  assumes "x \<le> 308"
  shows "float_pow10 x = Inr (10 powr x)"
proof -
  have "(10::real) powr x \<le> 10 powr 308"
    by (rule powr_mono) (use assms in simp_all)
  also have "(10::real) powr 308 = 10 ^ 308"
    by simp
  finally have "\<not> float_max < 10 powr x"
    using ten_308_fits by simp
  then show ?thesis by (simp add: float_pow10_def)
qed

lemma float_pow10_overflows:
  assumes "309 \<le> x"
  shows "float_pow10 x = Inl OverflowError"
proof -
  have "(10::real) ^ 309 = 10 powr 309"
    by simp
  also have "\<dots> \<le> 10 powr x"
    by (rule powr_mono) (use assms in simp_all)
  finally have "float_max < 10 powr x"
    using ten_309_overflows by simp
  then show ?thesis by (simp add: float_pow10_def)
qed

lemma float_pow10_cases:
  "float_pow10 x = Inl OverflowError \<and> float_max < 10 powr x \<or>
   float_pow10 x = Inr (10 powr x) \<and> 10 powr x \<le> float_max"
  by (simp add: float_pow10_def)

lemma float_max_large: "(10::real) ^ 6 \<le> float_max"
proof -
  have "(10::real) ^ 6 \<le> 10 ^ 308"
    by (rule power_increasing) simp_all
  with ten_308_fits show ?thesis by simp
qed

lemma expected_score_fits:
  assumes "opp - rating self \<le> 123200"
  shows "expected_score self opp = Inr (1 / (1 + 10 powr ((opp - rating self) / 400)))"
proof -
  have "(opp - rating self) / 400 \<le> 308"
    using assms by simp
  then show ?thesis
    by (simp add: expected_score_def Let_def float_pow10_fits)
qed

lemma expected_score_overflows:
  assumes "123600 \<le> opp - rating self" and "opp - rating self \<le> 10 ^ 6"
  shows "expected_score self opp = Inl OverflowError"
proof -
  have "309 \<le> (opp - rating self) / 400"
    using assms(1) by simp
  moreover have "\<not> float_max < opp - rating self"
    using assms(2) float_max_large by simp
  ultimately show ?thesis
    by (simp add: expected_score_def Let_def float_pow10_overflows)
qed

lemma expected_score_Inr:
  assumes "expected_score self opp = Inr e"
  shows "e = 1 / (1 + 10 powr ((opp - rating self) / 400))"
    and "float_max < opp - rating self \<or> 10 powr ((opp - rating self) / 400) \<le> float_max"
    and "0 < e" and "e < 1"
proof -
  show e: "e = 1 / (1 + 10 powr ((opp - rating self) / 400))"
    and "float_max < opp - rating self \<or> 10 powr ((opp - rating self) / 400) \<le> float_max"
    using assms by (auto simp: expected_score_def Let_def float_pow10_def split: if_splits)
  define y where "y = (10::real) powr ((opp - rating self) / 400)"
  have "0 < y"
    unfolding y_def by simp
  then have "0 < 1 / (1 + y)" and "1 / (1 + y) < 1"
    by simp_all
  then show "0 < e" and "e < 1"
    unfolding e y_def by simp_all
qed

lemma expected_score_Inl:
  assumes "expected_score self opp = Inl err"
  shows "err = OverflowError" and "float_max < 10 powr ((opp - rating self) / 400)"
    and "opp - rating self \<le> float_max"
  using assms by (auto simp: expected_score_def Let_def float_pow10_def split: if_splits)

lemma update_rating_Inr:
  assumes "expected_score self opp = Inr e"
  shows "update_rating self opp a k =
     Inr (self\<lparr>rating := rating self + k * (a - e),
               rating_history := rating_history self @ [rating self + k * (a - e)],
               matches_played := matches_played self + 1\<rparr>, k * (a - e))"
  using assms by (simp add: update_rating_def Let_def)

lemma update_rating_Inl:
  assumes "expected_score self opp = Inl err"
  shows "update_rating self opp a k = Inl err"
  using assms by (simp add: update_rating_def)

text \<open>
  C7, as the source has it. Whenever both expected scores are computed, the expected
  score of a player rated \<open>A\<close> against \<open>B\<close> is \<open>1 / (1 + 10 powr ((B - A) / 400))\<close> and
  the two expected scores add up to one; both are computed whenever the ratings are at
  most 123200 apart.
\<close>

theorem expected_score_symmetry:
  "(\<forall>x y. expected_score a (rating b) = Inr x \<longrightarrow> expected_score b (rating a) = Inr y \<longrightarrow>
      x = 1 / (1 + 10 powr ((rating b - rating a) / 400)) \<and> x + y = 1) \<and>
   (\<bar>rating a - rating b\<bar> \<le> 123200 \<longrightarrow>
      (\<exists>x y. expected_score a (rating b) = Inr x \<and> expected_score b (rating a) = Inr y \<and>
         x + y = 1))"
proof -
  have neg: "(rating a - rating b) / 400 = - ((rating b - rating a) / 400)"
    by (simp add: field_simps)
  have sum: "1 / (1 + 10 powr ((rating b - rating a) / 400)) +
      1 / (1 + 10 powr ((rating a - rating b) / 400)) = 1"
    unfolding neg by (rule expected_score_complement)
  have A: "x = 1 / (1 + 10 powr ((rating b - rating a) / 400)) \<and> x + y = 1"
    if "expected_score a (rating b) = Inr x" "expected_score b (rating a) = Inr y" for x y
    using expected_score_Inr(1) [OF that(1)] expected_score_Inr(1) [OF that(2)] sum by simp
  have B: "\<exists>x y. expected_score a (rating b) = Inr x \<and> expected_score b (rating a) = Inr y \<and>
         x + y = 1" if "\<bar>rating a - rating b\<bar> \<le> 123200"
  proof -
    have "rating b - rating a \<le> 123200" "rating a - rating b \<le> 123200"
      using that by simp_all
    from expected_score_fits [OF this(1)] expected_score_fits [OF this(2)] sum
    show ?thesis by simp
  qed
  from A B show ?thesis by blast
qed

text \<open>C7, witness: players rated 1500 and 1600.\<close>

theorem expected_score_symmetry_witness:
  "\<bar>rating (EloPlayer_init 1500) - rating (EloPlayer_init 1600)\<bar> \<le> 123200 \<and>
   (\<exists>x y. expected_score (EloPlayer_init 1500) (rating (EloPlayer_init 1600)) = Inr x \<and>
      expected_score (EloPlayer_init 1600) (rating (EloPlayer_init 1500)) = Inr y \<and> x + y = 1)"
proof -
  have near: "\<bar>rating (EloPlayer_init 1500) - rating (EloPlayer_init 1600)\<bar> \<le> 123200"
    by (simp add: EloPlayer_init_def)
  with expected_score_symmetry [of "EloPlayer_init 1500" "EloPlayer_init 1600"]
  show ?thesis by blast
qed

text \<open>
  C7, counterexample: for the ratings 0 and 123600 the power is \<open>10 powr 309\<close>, and the
  expected score of the lower rated player is not computed.
\<close>

theorem expected_score_overflow:
  "expected_score (EloPlayer_init 0) 123600 = Inl OverflowError"
  by (rule expected_score_overflows) (simp_all add: EloPlayer_init_def)

text \<open>
  C4, as the source has it. When the expected score is computed, which it is whenever
  the opponent is rated at most 123200 above the player, \<open>update_rating\<close> returns
  \<open>k_factor * (actual_score - expected)\<close>, adds that change to the rating, appends the new
  rating to the history and counts one more match. When the expected score raises,
  \<open>update_rating\<close> raises the same exception and assigns nothing.
\<close>

theorem update_rating_effect:
  "(\<forall>expected. expected_score self opp = Inr expected \<longrightarrow>
      (\<exists>self'. update_rating self opp actual k = Inr (self', k * (actual - expected)) \<and>
         rating self' = rating self + k * (actual - expected) \<and>
         rating_history self' = rating_history self @ [rating self'] \<and>
         matches_played self' = matches_played self + 1)) \<and>
   (opp - rating self \<le> 123200 \<longrightarrow>
      expected_score self opp = Inr (1 / (1 + 10 powr ((opp - rating self) / 400)))) \<and>
   (\<forall>err. expected_score self opp = Inl err \<longrightarrow> update_rating self opp actual k = Inl err)"
proof -
  have A: "\<exists>self'. update_rating self opp actual k = Inr (self', k * (actual - expected)) \<and>
         rating self' = rating self + k * (actual - expected) \<and>
         rating_history self' = rating_history self @ [rating self'] \<and>
         matches_played self' = matches_played self + 1"
    if "expected_score self opp = Inr expected" for expected
    by (simp add: update_rating_Inr [OF that])
  from A expected_score_fits update_rating_Inl show ?thesis
    by blast
qed

text \<open>C4, witness: a new player rated 1500 wins against a rating of 1500.\<close>

theorem update_rating_effect_witness:
  "expected_score (EloPlayer_init 1500) 1500 = Inr (1 / 2) \<and>
   (\<exists>self'. update_rating (EloPlayer_init 1500) 1500 1 32 = Inr (self', 32 * (1 - 1 / 2)) \<and>
      rating self' = rating (EloPlayer_init 1500) + 32 * (1 - 1 / 2) \<and>
      matches_played self' = matches_played (EloPlayer_init 1500) + 1)"
proof -
  have e: "expected_score (EloPlayer_init 1500) 1500 = Inr (1 / 2)"
    using expected_score_fits [of 1500 "EloPlayer_init 1500"]
    by (simp add: EloPlayer_init_def)
  with update_rating_effect [of "EloPlayer_init 1500" 1500 1 32]
  show ?thesis by blast
qed

text \<open>
  C4, counterexample: a player rated 0 and an opponent rating of 123600; the update
  raises and returns no change.
\<close>

theorem update_rating_overflow:
  "update_rating (EloPlayer_init 0) 123600 1 32 = Inl OverflowError"
  by (rule update_rating_Inl, rule expected_score_overflows) (simp_all add: EloPlayer_init_def)

section \<open>The effect of the calls\<close>

lemma with_change_simps:
  "rating (with_change p c) = rating p + c"
  "rating_history (with_change p c) = rating_history p @ [rating p + c]"
  "matches_played (with_change p c) = matches_played p + 1"
  by (simp_all add: with_change_def)

lemma update_rating_cases:
  "(\<exists>err. expected_score self opp = Inl err \<and> update_rating self opp a k = Inl err) \<or>
   (\<exists>e. expected_score self opp = Inr e \<and>
        update_rating self opp a k = Inr (with_change self (k * (a - e)), k * (a - e)))"
proof (cases "expected_score self opp")
  case (Inl err)
  then show ?thesis by (simp add: update_rating_Inl)
next
  case (Inr e)
  then show ?thesis by (simp add: update_rating_Inr with_change_def)
qed

lemma call_update_rating_cases:
  "(\<exists>err. expected_score (h p) opp = Inl err \<and> call_update_rating h p opp a k = (h, Inl err)) \<or>
   (\<exists>e. expected_score (h p) opp = Inr e \<and>
        call_update_rating h p opp a k =
          (h(p := with_change (h p) (k * (a - e))), Inr (k * (a - e))))"
  using update_rating_cases [of "h p" opp a k]
  by (auto simp: call_update_rating_def)

text \<open>The three ways a pair of updates can end.\<close>

lemma update_both_cases:
  "(\<exists>err. expected_score (h p1) (rating (h p2)) = Inl err \<and>
        update_both h p1 p2 s1 s2 = (h, Inl err)) \<or>
   (\<exists>e1 err h1. expected_score (h p1) (rating (h p2)) = Inr e1 \<and>
        h1 = h(p1 := with_change (h p1) (32 * (s1 - e1))) \<and>
        expected_score (h1 p2) (rating (h1 p1)) = Inl err \<and>
        update_both h p1 p2 s1 s2 = (h1, Inl err)) \<or>
   (\<exists>e1 e2 h1. expected_score (h p1) (rating (h p2)) = Inr e1 \<and>
        h1 = h(p1 := with_change (h p1) (32 * (s1 - e1))) \<and>
        expected_score (h1 p2) (rating (h1 p1)) = Inr e2 \<and>
        update_both h p1 p2 s1 s2 =
          (h1(p2 := with_change (h1 p2) (32 * (s2 - e2))),
           Inr (32 * (s1 - e1), 32 * (s2 - e2))))"
proof -
  consider (a) err where "expected_score (h p1) (rating (h p2)) = Inl err"
      "call_update_rating h p1 (rating (h p2)) s1 default_k_factor = (h, Inl err)"
    | (b) e1 where "expected_score (h p1) (rating (h p2)) = Inr e1"
      "call_update_rating h p1 (rating (h p2)) s1 default_k_factor =
         (h(p1 := with_change (h p1) (32 * (s1 - e1))), Inr (32 * (s1 - e1)))"
    using call_update_rating_cases [of h p1 "rating (h p2)" s1 default_k_factor]
    by (auto simp: default_k_factor_def)
  then show ?thesis
  proof cases
    case a
    then show ?thesis by (simp add: update_both_def)
  next
    case b
    let ?h1 = "h(p1 := with_change (h p1) (32 * (s1 - e1)))"
    consider (c) err where "expected_score (?h1 p2) (rating (?h1 p1)) = Inl err"
        "call_update_rating ?h1 p2 (rating (?h1 p1)) s2 default_k_factor = (?h1, Inl err)"
      | (d) e2 where "expected_score (?h1 p2) (rating (?h1 p1)) = Inr e2"
        "call_update_rating ?h1 p2 (rating (?h1 p1)) s2 default_k_factor =
           (?h1(p2 := with_change (?h1 p2) (32 * (s2 - e2))), Inr (32 * (s2 - e2)))"
      using call_update_rating_cases [of ?h1 p2 "rating (?h1 p1)" s2 default_k_factor]
      by (auto simp: default_k_factor_def)
    then show ?thesis
    proof cases
      case c
      have "update_both h p1 p2 s1 s2 = (?h1, Inl err)"
        unfolding update_both_def b(2) using c(2) by simp
      with b(1) c(1) show ?thesis by blast
    next
      case d
      have "update_both h p1 p2 s1 s2 =
          (?h1(p2 := with_change (?h1 p2) (32 * (s2 - e2))),
           Inr (32 * (s1 - e1), 32 * (s2 - e2)))"
        unfolding update_both_def b(2) using d(2) by simp
      with b(1) d(1) show ?thesis by blast
    qed
  qed
qed

lemma simulate_match_cases:
  "(\<exists>err. expected_score (h p1) (rating (h p2)) = Inl err \<and>
        simulate_match h r p1 p2 = (h, Inl err)) \<or>
   (\<exists>e1. expected_score (h p1) (rating (h p2)) = Inr e1 \<and> r < e1 \<and>
        fst (simulate_match h r p1 p2) = fst (update_both h p1 p2 1 0) \<and>
        snd (simulate_match h r p1 p2) =
          (case snd (update_both h p1 p2 1 0) of Inl err \<Rightarrow> Inl err | Inr cs \<Rightarrow> Inr 1)) \<or>
   (\<exists>e1. expected_score (h p1) (rating (h p2)) = Inr e1 \<and> \<not> r < e1 \<and>
        fst (simulate_match h r p1 p2) = fst (update_both h p1 p2 0 1) \<and>
        snd (simulate_match h r p1 p2) =
          (case snd (update_both h p1 p2 0 1) of Inl err \<Rightarrow> Inl err | Inr cs \<Rightarrow> Inr 2))"
  by (cases "expected_score (h p1) (rating (h p2))")
    (auto simp: simulate_match_def split: prod.splits sum.splits)

section \<open>One match between two players rated 1500\<close>

lemma expected_1500_1500: "rating p = 1500 \<Longrightarrow> expected_score p 1500 = Inr (1 / 2)"
  using expected_score_fits [of 1500 p] by simp

lemma expected_1500_1516:
  "rating p = 1500 \<Longrightarrow> expected_score p 1516 = Inr (1 / (1 + 10 powr (1 / 25)))"
  using expected_score_fits [of 1516 p] by simp

lemma expected_1500_1484:
  "rating p = 1500 \<Longrightarrow> expected_score p 1484 = Inr (1 / (1 + 10 powr (- (1 / 25))))"
  using expected_score_fits [of 1484 p] by simp

lemmas eval_1500 = h1500_def EloPlayer_init_def call_update_rating_def update_rating_def
  expected_1500_1500 expected_1500_1516 expected_1500_1484 default_k_factor_def Let_def

lemma powr_ten_gt_one: "0 < x \<Longrightarrow> 1 < (10::real) powr x"
  by simp

lemma half_bound:
  fixes y :: real
  assumes "1 < y"
  shows "32 / (1 + y) < 16"
proof -
  have "0 < 1 + y" using assms by simp
  then have "32 / (1 + y) < 16 \<longleftrightarrow> 32 < 16 * (1 + y)"
    by (rule pos_divide_less_eq)
  then show ?thesis using assms by simp
qed

lemma loser_change_bound: "32 / (1 + (10::real) powr (1 / 25)) < 16"
  by (rule half_bound, rule powr_ten_gt_one) simp

lemma source_order_changes:
  "snd (update_both h1500 0 1 1 0) = Inr (16, - (32 / (1 + 10 powr (1 / 25))))"
  by (simp add: update_both_def eval_1500)

lemma source_order_ratings:
  "rating (fst (update_both h1500 0 1 1 0) 0) = 1516"
  "rating (fst (update_both h1500 0 1 1 0) 1) = 1500 - 32 / (1 + 10 powr (1 / 25))"
  by (simp_all add: update_both_def eval_1500)

lemma match_1500: "simulate_match h1500 0 0 1 = (fst (update_both h1500 0 1 1 0), Inr 1)"
  by (simp add: simulate_match_def update_both_def eval_1500)

lemma prematch_ratings:
  "rating (fst (update_both_prematch h1500 0 1 1 0) 0) = 1516"
  "rating (fst (update_both_prematch h1500 0 1 1 0) 1) = 1484"
  "snd (update_both_prematch h1500 0 1 1 0) = Inr (16, - 16)"
  by (simp_all add: update_both_prematch_def eval_1500)

lemma reversed_order_ratings:
  "rating (fst (update_both_reversed h1500 0 1 1 0) 0) = 1532 - 32 / (1 + 10 powr (- (1 / 25)))"
  "rating (fst (update_both_reversed h1500 0 1 1 0) 1) = 1484"
  by (simp_all add: update_both_reversed_def eval_1500)

text \<open>
  C1. The source does not capture the ratings before the match: the second call reads
  \<^verbatim>\<open>player1.rating\<close> after the first call has changed it. For two players rated 1500
  and a draw of 0, player2 ends above 1484, which is what both updates on the pre-match
  ratings give, and also what player2 gets when its update is made first: the final
  ratings depend on the order of the two updates.
\<close>

theorem simulate_match_order_dependent:
  "rating (fst (simulate_match h1500 0 0 1) 0) = 1516 \<and>
   rating (fst (simulate_match h1500 0 0 1) 1) = 1500 - 32 / (1 + 10 powr (1 / 25)) \<and>
   rating (fst (update_both_prematch h1500 0 1 1 0) 1) = 1484 \<and>
   rating (fst (update_both_reversed h1500 0 1 1 0) 1) = 1484 \<and>
   rating (fst (simulate_match h1500 0 0 1) 1) \<noteq> rating (fst (update_both_prematch h1500 0 1 1 0) 1) \<and>
   rating (fst (simulate_match h1500 0 0 1) 1) \<noteq> rating (fst (update_both_reversed h1500 0 1 1 0) 1)"
  unfolding match_1500 fst_conv source_order_ratings prematch_ratings reversed_order_ratings
  using loser_change_bound by simp

text \<open>
  C2. For two players rated 1500 and a draw of 0, the change returned by the update of
  player1 is 16 and the change returned by the update of player2 is
  \<open>- 32 / (1 + 10 powr (1 / 25))\<close>, which is not \<open>- 16\<close>: the two changes do not cancel.
\<close>

theorem simulate_match_not_zero_sum:
  "simulate_match h1500 0 0 1 = (fst (update_both h1500 0 1 1 0), Inr 1) \<and>
   snd (update_both h1500 0 1 1 0) = Inr (16, - (32 / (1 + 10 powr (1 / 25)))) \<and>
   (16::real) \<noteq> - (- (32 / (1 + 10 powr (1 / 25))))"
  using match_1500 source_order_changes loser_change_bound by simp

text \<open>
  C3. For two players rated 1500 and a draw of 0, which is below 0.5, player1 wins and
  its rating becomes 1516; the rating of player2 becomes
  \<open>1500 - 32 / (1 + 10 powr (1 / 25))\<close>, which is above 1484.
\<close>

theorem simulate_match_equal_ratings:
  "snd (simulate_match h1500 0 0 1) = Inr 1 \<and>
   rating (fst (simulate_match h1500 0 0 1) 0) = 1516 \<and>
   rating (fst (simulate_match h1500 0 0 1) 1) = 1500 - 32 / (1 + 10 powr (1 / 25)) \<and>
   1484 < rating (fst (simulate_match h1500 0 0 1) 1)"
  unfolding match_1500 using source_order_ratings loser_change_bound by simp

section \<open>The history invariant\<close>

lemma history_invariant_init: "history_invariant (EloPlayer_init r)"
  by (simp add: history_invariant_def EloPlayer_init_def)

lemma history_invariant_with_change:
  "history_invariant p \<Longrightarrow> history_invariant (with_change p c)"
  by (simp add: history_invariant_def with_change_simps)

lemma history_invariant_update:
  assumes "history_invariant p" and "update_rating p opp a k = Inr (p', c)"
  shows "history_invariant p'"
  using update_rating_cases [of p opp a k] assms
  by (auto simp: history_invariant_with_change)

lemma history_invariant_apply_updates:
  "history_invariant p \<Longrightarrow> history_invariant (apply_updates p us)"
proof (induction p us rule: apply_updates.induct)
  case (1 p)
  then show ?case by simp
next
  case (2 p opp a k us)
  show ?case
  proof (cases "update_rating p opp a k")
    case (Inl err)
    with "2.prems" show ?thesis by simp
  next
    case (Inr pc)
    obtain p' c where pc: "pc = (p', c)" by (cases pc)
    have "history_invariant p'"
      using history_invariant_update [OF "2.prems"] Inr pc by simp
    with "2.IH" [OF Inr pc [symmetric]] Inr pc show ?thesis by simp
  qed
qed

lemma history_invariant_update_both:
  assumes "\<And>q. history_invariant (h q)"
  shows "history_invariant (fst (update_both h p1 p2 s1 s2) q)"
  using update_both_cases [of h p1 p2 s1 s2] assms
  by (auto simp: history_invariant_with_change)

lemma history_invariant_simulate_match:
  assumes "\<And>q. history_invariant (h q)"
  shows "history_invariant (fst (simulate_match h r p1 p2) q)"
  using simulate_match_cases [of h p1 p2 r] assms history_invariant_update_both [of h]
  by auto

lemma history_invariant_round:
  assumes "simulation_round m d s = Inr s'" and "\<And>q. history_invariant (fst s q)"
  shows "history_invariant (fst s' q)"
proof -
  from assms(1) obtain p1 p2 w where
    "simulate_match (fst s) (outcome_draw d) p1 p2 = (fst s', Inr w)"
    by (auto simp: simulation_round_def split: sum.splits prod.splits)
  then have "fst s' = fst (simulate_match (fst s) (outcome_draw d) p1 p2)"
    by simp
  then show ?thesis
    using history_invariant_simulate_match [of "fst s"] assms(2) by simp
qed

lemma history_invariant_run:
  "run_matches m ds s = Inr s' \<Longrightarrow> (\<And>q. history_invariant (fst s q)) \<Longrightarrow>
   history_invariant (fst s' q)"
proof (induction ds arbitrary: s)
  case Nil
  then show ?case by simp
next
  case (Cons d ds)
  from Cons.prems(1) obtain s1 where r: "simulation_round m d s = Inr s1"
    and rest: "run_matches m ds s1 = Inr s'"
    by (auto split: sum.splits)
  have "\<And>q. history_invariant (fst s1 q)"
    using history_invariant_round [OF r] Cons.prems(2) by blast
  with Cons.IH [OF rest] show ?case by blast
qed

lemma history_invariant_simulation:
  assumes "monte_carlo_elo_simulation rng n m r = Inr (ps, res)" and "p \<in> set ps"
  shows "history_invariant p"
proof -
  let ?mm = "MatchmakingSystem_init [0..<n] default_rating_range_percentage"
  from assms(1) obtain h'
    where run: "run_matches ?mm (map rng [0..<m]) (\<lambda>_. EloPlayer_init r, []) = Inr (h', res)"
      and ps: "ps = map h' [0..<n]"
    by (auto simp: monte_carlo_elo_simulation_def Let_def split: sum.splits)
  have "history_invariant (fst (h', res) q)" for q
    using history_invariant_run [OF run] by (simp add: history_invariant_init)
  with assms(2) ps show ?thesis by auto
qed

text \<open>
  C6. The length of the history is the number of matches played plus one: for a new
  player, after any sequence of updates of a new player, after one update of a player it
  holds for, for every player of the store after a match, completed or interrupted by an
  exception, when it held for every player before, and for every player a run of the
  simulation returns.
\<close>

theorem history_invariant_preserved:
  "history_invariant (EloPlayer_init r0) \<and>
   history_invariant (apply_updates (EloPlayer_init r0) us) \<and>
   (history_invariant p \<longrightarrow>
      (\<forall>p' c. update_rating p opp a k = Inr (p', c) \<longrightarrow> history_invariant p')) \<and>
   ((\<forall>q. history_invariant (h q)) \<longrightarrow> (\<forall>q. history_invariant (fst (simulate_match h r p1 p2) q))) \<and>
   (\<forall>ps res. monte_carlo_elo_simulation rng n m r0 = Inr (ps, res) \<longrightarrow> (\<forall>p\<in>set ps. history_invariant p))"
proof (intro conjI impI allI ballI)
  show "history_invariant (EloPlayer_init r0)"
    by (rule history_invariant_init)
  show "history_invariant (apply_updates (EloPlayer_init r0) us)"
    by (rule history_invariant_apply_updates [OF history_invariant_init])
  show "history_invariant p'"
    if "history_invariant p" "update_rating p opp a k = Inr (p', c)" for p' c
    by (rule history_invariant_update [OF that])
  show "history_invariant (fst (simulate_match h r p1 p2) q)"
    if "\<forall>q. history_invariant (h q)" for q
    using that by (intro history_invariant_simulate_match) simp
  show "history_invariant p"
    if "monte_carlo_elo_simulation rng n m r0 = Inr (ps, res)" "p \<in> set ps" for ps res p
    by (rule history_invariant_simulation [OF that])
qed

section \<open>The k-factor of a match\<close>

text \<open>
  C9, as the source has it. \<open>simulate_match\<close> passes no k-factor, so both updates of a
  match use the default 32 of \<open>update_rating\<close>: when the expected scores are computed,
  player1 moves by 32 times its score minus its expected score against the rating of
  player2, and player2 by 32 times its score minus its expected score against the new
  rating of player1. The driver takes the number of players, the number of matches and
  the initial rating only, and builds its matchmaker with the percentage 1/5.
\<close>

theorem simulate_match_default_k_factor:
  assumes "player1 \<noteq> player2"
  shows "(\<forall>e1. expected_score (h player1) (rating (h player2)) = Inr e1 \<longrightarrow>
       rating (fst (simulate_match h r player1 player2) player1) =
         rating (h player1) + 32 * ((if r < e1 then 1 else 0) - e1) \<and>
       (\<forall>e2. expected_score (h player2)
                (rating (fst (simulate_match h r player1 player2) player1)) = Inr e2 \<longrightarrow>
          rating (fst (simulate_match h r player1 player2) player2) =
            rating (h player2) + 32 * ((if r < e1 then 0 else 1) - e2))) \<and>
    monte_carlo_elo_simulation rng num_players num_matches initial_rating =
      (case run_matches \<lparr>players = [0..<num_players], rating_range_percentage = 1 / 5\<rparr>
              (map rng [0..<num_matches]) (\<lambda>_. EloPlayer_init initial_rating, []) of
         Inl e \<Rightarrow> Inl e
       | Inr (h', match_results) \<Rightarrow> Inr (map h' [0..<num_players], match_results))"
proof -
  have drv: "monte_carlo_elo_simulation rng num_players num_matches initial_rating =
      (case run_matches \<lparr>players = [0..<num_players], rating_range_percentage = 1 / 5\<rparr>
              (map rng [0..<num_matches]) (\<lambda>_. EloPlayer_init initial_rating, []) of
         Inl e \<Rightarrow> Inl e
       | Inr (h', match_results) \<Rightarrow> Inr (map h' [0..<num_players], match_results))"
    by (simp add: monte_carlo_elo_simulation_def MatchmakingSystem_init_def
        default_rating_range_percentage_def Let_def)
  have both: "rating (fst (update_both h player1 player2 s1 s2) player1) =
        rating (h player1) + 32 * (s1 - e1) \<and>
      (\<forall>e2. expected_score (h player2) (rating (h player1) + 32 * (s1 - e1)) = Inr e2 \<longrightarrow>
         rating (fst (update_both h player1 player2 s1 s2) player2) =
           rating (h player2) + 32 * (s2 - e2))"
    if "expected_score (h player1) (rating (h player2)) = Inr e1" for e1 s1 s2
    using update_both_cases [of h player1 player2 s1 s2] that assms
    by (auto simp: with_change_simps)
  have m: "rating (fst (simulate_match h r player1 player2) player1) =
         rating (h player1) + 32 * ((if r < e1 then 1 else 0) - e1) \<and>
       (\<forall>e2. expected_score (h player2)
                (rating (fst (simulate_match h r player1 player2) player1)) = Inr e2 \<longrightarrow>
          rating (fst (simulate_match h r player1 player2) player2) =
            rating (h player2) + 32 * ((if r < e1 then 0 else 1) - e2))"
    if e1: "expected_score (h player1) (rating (h player2)) = Inr e1" for e1
  proof (cases "r < e1")
    case True
    have "fst (simulate_match h r player1 player2) = fst (update_both h player1 player2 1 0)"
      using simulate_match_cases [of h player1 player2 r] e1 True by auto
    with both [OF e1, of 1 0] True show ?thesis by simp
  next
    case False
    have "fst (simulate_match h r player1 player2) = fst (update_both h player1 player2 0 1)"
      using simulate_match_cases [of h player1 player2 r] e1 False by auto
    with both [OF e1, of 0 1] False show ?thesis by simp
  qed
  from m drv show ?thesis by blast
qed

text \<open>C9, witness: the winner of a match between two players rated 1500 gains 16.\<close>

theorem simulate_match_default_k_factor_witness:
  "(0::nat) \<noteq> 1 \<and> expected_score (h1500 0) (rating (h1500 1)) = Inr (1 / 2) \<and>
   rating (fst (simulate_match h1500 0 0 1) 0) = 1500 + 32 * (1 - 1 / 2)"
proof -
  have ne: "(0::nat) \<noteq> 1"
    by simp
  have e: "expected_score (h1500 0) (rating (h1500 1)) = Inr (1 / 2)"
    by (simp add: h1500_def EloPlayer_init_def expected_1500_1500)
  have r: "rating (h1500 0) = 1500"
    by (simp add: h1500_def EloPlayer_init_def)
  from simulate_match_default_k_factor [OF ne, of h1500 0]
  have "\<forall>e1. expected_score (h1500 0) (rating (h1500 1)) = Inr e1 \<longrightarrow>
       rating (fst (simulate_match h1500 0 0 1) 0) =
         rating (h1500 0) + 32 * ((if 0 < e1 then 1 else 0) - e1)"
    by blast
  with e have "rating (fst (simulate_match h1500 0 0 1) 0) =
         rating (h1500 0) + 32 * ((if (0::real) < 1 / 2 then 1 else 0) - 1 / 2)"
    by blast
  with ne e r show ?thesis
    by simp
qed

text \<open>
  C9, counterexample: were a k-factor of 16 configured, the winner of that match would
  gain 8; it gains 16.
\<close>

theorem simulate_match_ignores_other_k_factor:
  "expected_score (h1500 0) (rating (h1500 1)) = Inr (1 / 2) \<and>
   rating (fst (simulate_match h1500 0 0 1) 0) \<noteq> rating (h1500 0) + 16 * (1 - 1 / 2)"
  unfolding match_1500 fst_conv source_order_ratings
  by (simp add: h1500_def EloPlayer_init_def expected_1500_1500)

section \<open>Properties of matchmaking\<close>

lemma choice_Inr: "choice k xs = Inr x \<Longrightarrow> x \<in> set xs"
  by (auto simp: choice_def split: if_splits)

lemma choice_nonempty: "xs \<noteq> [] \<Longrightarrow> choice k xs = Inr (xs ! (k mod length xs))"
  by (simp add: choice_def)

lemma choice_empty: "choice k [] = Inl IndexError"
  by (simp add: choice_def)

lemma choice_in_range: "k < length xs \<Longrightarrow> choice k xs = Inr (xs ! k)"
  by (auto simp: choice_def)

lemma potential_opponents_subset:
  "set (potential_opponents h self player) \<subseteq> set (players self) - {player}"
  by (auto simp: potential_opponents_def Let_def)

lemma potential_opponents_set:
  "set (potential_opponents h self player) =
     (if {p \<in> set (players self). p \<noteq> player \<and> in_band h self player p} = {}
      then set (players self) - {player}
      else {p \<in> set (players self). p \<noteq> player \<and> in_band h self player p})"
  by (auto simp: potential_opponents_def Let_def in_band_def filter_empty_conv)

lemma potential_opponents_distinct:
  "distinct (players self) \<Longrightarrow> distinct (potential_opponents h self player)"
  by (simp add: potential_opponents_def Let_def)

lemma other_member:
  assumes "distinct ps" and "2 \<le> length ps"
  shows "filter (\<lambda>p. p \<noteq> player) ps \<noteq> []"
proof -
  obtain a b rest where ps: "ps = a # b # rest"
    using assms(2) by (cases ps; cases "tl ps") auto
  with assms(1) have "a \<noteq> b" by simp
  then show ?thesis
    unfolding ps by (cases "a = player") simp_all
qed

lemma potential_opponents_nonempty:
  assumes "distinct (players self)" and "2 \<le> length (players self)"
  shows "potential_opponents h self player \<noteq> []"
  using other_member [OF assms] by (simp add: potential_opponents_def Let_def)

lemma find_match_Inr:
  "find_match h self k player = Inr q \<Longrightarrow> q \<in> set (players self) \<and> q \<noteq> player"
  using potential_opponents_subset [of h self player]
  by (auto simp: find_match_def dest!: choice_Inr)

lemma unique_position:
  assumes "distinct xs" and "q \<in> set xs"
  shows "card {i. i < length xs \<and> xs ! i = q} = 1"
proof -
  from assms(2) obtain j where j: "j < length xs" "xs ! j = q"
    by (auto simp: in_set_conv_nth)
  have "{i. i < length xs \<and> xs ! i = q} = {j}"
    using assms(1) j by (auto simp: nth_eq_iff_index_eq)
  then show ?thesis by simp
qed

text \<open>
  C5. For a population of at least two distinct players and a subject in it,
  \<open>find_match\<close> never returns the subject; its candidates are the other members whose
  rating lies in the band of the subject, bounds included, or every other member when no
  such member exists; it returns one of the candidates, and each candidate is the result
  of exactly one of the equally likely index draws of \<^verbatim>\<open>random.choice\<close>.
\<close>

theorem find_match_candidates:
  assumes "distinct (players self)" and "2 \<le> length (players self)"
    and "player \<in> set (players self)"
  shows "find_match h self k player \<noteq> Inr player \<and>
    set (potential_opponents h self player) =
      (if {p \<in> set (players self). p \<noteq> player \<and> in_band h self player p} = {}
       then set (players self) - {player}
       else {p \<in> set (players self). p \<noteq> player \<and> in_band h self player p}) \<and>
    (\<exists>q. find_match h self k player = Inr q \<and> q \<in> set (potential_opponents h self player)) \<and>
    (\<forall>q\<in>set (potential_opponents h self player).
       card {i. i < length (potential_opponents h self player) \<and> find_match h self i player = Inr q} = 1)"
proof -
  let ?c = "potential_opponents h self player"
  have ne: "?c \<noteq> []"
    by (rule potential_opponents_nonempty [OF assms(1,2)])
  have a: "find_match h self k player \<noteq> Inr player"
    using find_match_Inr [of h self k player player] by auto
  have c: "\<exists>q. find_match h self k player = Inr q \<and> q \<in> set ?c"
    using ne by (simp add: find_match_def choice_nonempty)
  have d: "card {i. i < length ?c \<and> find_match h self i player = Inr q} = 1" if "q \<in> set ?c" for q
  proof -
    have "{i. i < length ?c \<and> find_match h self i player = Inr q} = {i. i < length ?c \<and> ?c ! i = q}"
      by (auto simp: find_match_def choice_in_range)
    then show ?thesis
      using unique_position [OF potential_opponents_distinct [OF assms(1)] that] by simp
  qed
  show ?thesis
    using a c d potential_opponents_set [of h self player] by blast
qed

lemma players_mm_three: "players mm_three = [3, 4, 5]"
  by (simp add: mm_three_def MatchmakingSystem_init_def)

lemma ratings_h_three:
  "rating (h_three 3) = 1500" "rating (h_three 4) = 1600" "rating (h_three 5) = 3000"
  by (simp_all add: h_three_def EloPlayer_init_def)

lemma percentage_mm_three: "rating_range_percentage mm_three = 1 / 5"
  by (simp add: mm_three_def MatchmakingSystem_init_def default_rating_range_percentage_def)

lemma opponents_in_band: "potential_opponents h_three mm_three 3 = [4]"
  by (simp add: potential_opponents_def players_mm_three ratings_h_three percentage_mm_three)

lemma opponents_fallback: "potential_opponents h_three mm_three 5 = [3, 4]"
  by (simp add: potential_opponents_def players_mm_three ratings_h_three percentage_mm_three)

text \<open>
  C5, witness: the player rated 3000 has nobody in its band and is matched with one of
  the two others; the player rated 1500 is matched with the player rated 1600, the only
  one in its band.
\<close>

theorem find_match_candidates_witness:
  "distinct (players mm_three) \<and> 2 \<le> length (players mm_three) \<and>
   5 \<in> set (players mm_three) \<and> 3 \<in> set (players mm_three) \<and>
   find_match h_three mm_three 7 5 \<noteq> Inr 5 \<and>
   (\<exists>q. find_match h_three mm_three 7 5 = Inr q \<and> q \<in> {3, 4}) \<and>
   card {i. i < length (potential_opponents h_three mm_three 5) \<and>
            find_match h_three mm_three i 5 = Inr 4} = 1 \<and>
   find_match h_three mm_three 7 3 = Inr 4"
proof -
  have d: "distinct (players mm_three)" and l: "2 \<le> length (players mm_three)"
    and m: "5 \<in> set (players mm_three)" and m': "3 \<in> set (players mm_three)"
    by (simp_all add: players_mm_three)
  have c: "set (potential_opponents h_three mm_three 5) = {3, 4}"
    by (simp add: opponents_fallback)
  have c': "set (potential_opponents h_three mm_three 3) = {4}"
    by (simp add: opponents_in_band)
  from find_match_candidates [OF d l m, of h_three 7]
  have "find_match h_three mm_three 7 5 \<noteq> Inr 5"
    and "\<exists>q. find_match h_three mm_three 7 5 = Inr q \<and>
           q \<in> set (potential_opponents h_three mm_three 5)"
    and "\<forall>q\<in>set (potential_opponents h_three mm_three 5).
           card {i. i < length (potential_opponents h_three mm_three 5) \<and>
                    find_match h_three mm_three i 5 = Inr q} = 1"
    by blast+
  moreover from find_match_candidates [OF d l m', of h_three 7]
  have "\<exists>q. find_match h_three mm_three 7 3 = Inr q \<and>
           q \<in> set (potential_opponents h_three mm_three 3)"
    by blast
  ultimately show ?thesis
    using d l m m' unfolding c c' by blast
qed

text \<open>
  C8. When the population has fewer than two members, so that it holds nobody but the
  subject, \<open>find_match\<close> does not return a player: it fails with the \<^verbatim>\<open>IndexError\<close>
  that \<^verbatim>\<open>random.choice\<close> raises on the empty list of candidates.
\<close>

theorem find_match_no_opponent:
  assumes "length (players self) < 2" and "players self = [] \<or> players self = [player]"
  shows "find_match h self k player = Inl IndexError"
  using assms(2) by (auto simp: find_match_def potential_opponents_def Let_def choice_def)

text \<open>C8, witness: a population of one player.\<close>

theorem find_match_no_opponent_witness:
  "length (players mm_one) < 2 \<and> players mm_one = [0] \<and>
   find_match h1500 mm_one 3 0 = Inl IndexError"
  using find_match_no_opponent [of mm_one 0 h1500 3]
  by (simp add: mm_one_def MatchmakingSystem_init_def)

section \<open>Properties of a run\<close>

lemma update_both_Inr:
  assumes "snd (update_both h p1 p2 s1 s2) = Inr cs"
  shows "\<exists>e1 e2 h1. expected_score (h p1) (rating (h p2)) = Inr e1 \<and>
        h1 = h(p1 := with_change (h p1) (32 * (s1 - e1))) \<and>
        expected_score (h1 p2) (rating (h1 p1)) = Inr e2 \<and>
        update_both h p1 p2 s1 s2 =
          (h1(p2 := with_change (h1 p2) (32 * (s2 - e2))),
           Inr (32 * (s1 - e1), 32 * (s2 - e2)))"
  using update_both_cases [of h p1 p2 s1 s2] assms by auto

lemma matches_played_update_both:
  assumes "snd (update_both h p1 p2 s1 s2) = Inr cs"
  shows "matches_played (fst (update_both h p1 p2 s1 s2) q) =
     matches_played (h q) + (if q = p1 then 1 else 0) + (if q = p2 then 1 else 0)"
  using update_both_Inr [OF assms] by (auto simp: with_change_simps)

lemma simulate_match_Inr:
  assumes "simulate_match h r p1 p2 = (h', Inr w)"
  shows "w = 1 \<or> w = 2"
    and "matches_played (h' q) =
      matches_played (h q) + (if q = p1 then 1 else 0) + (if q = p2 then 1 else 0)"
proof -
  have h': "h' = fst (simulate_match h r p1 p2)" and w: "snd (simulate_match h r p1 p2) = Inr w"
    using assms by simp_all
  consider (win) cs where "h' = fst (update_both h p1 p2 1 0)"
      "snd (update_both h p1 p2 1 0) = Inr cs" "w = 1"
    | (lose) cs where "h' = fst (update_both h p1 p2 0 1)"
      "snd (update_both h p1 p2 0 1) = Inr cs" "w = 2"
    using simulate_match_cases [of h p1 p2 r] h' w
    by (auto split: sum.splits)
  then have "(w = 1 \<or> w = 2) \<and> matches_played (h' q) =
      matches_played (h q) + (if q = p1 then 1 else 0) + (if q = p2 then 1 else 0)"
  proof cases
    case win
    show ?thesis
      unfolding win(1) matches_played_update_both [OF win(2)] using win(3) by simp
  next
    case lose
    show ?thesis
      unfolding lose(1) matches_played_update_both [OF lose(2)] using lose(3) by simp
  qed
  then show "w = 1 \<or> w = 2"
    and "matches_played (h' q) =
      matches_played (h q) + (if q = p1 then 1 else 0) + (if q = p2 then 1 else 0)"
    by simp_all
qed

lemma simulation_round_Inr:
  assumes "simulation_round m d (h, res) = Inr (h', res')"
  shows "\<exists>p1 p2 w. p1 \<in> set (players m) \<and> p2 \<in> set (players m) \<and> p1 \<noteq> p2 \<and>
           (w = 1 \<or> w = 2) \<and> res' = res @ [w] \<and>
           (\<forall>q. matches_played (h' q) = matches_played (h q) + (if q = p1 \<or> q = p2 then 1 else 0))"
proof -
  from assms obtain p1 p2 w where p1: "choice (subject_draw d) (players m) = Inr p1"
    and p2: "find_match h m (opponent_draw d) p1 = Inr p2"
    and sm: "simulate_match h (outcome_draw d) p1 p2 = (h', Inr w)"
    and res: "res' = res @ [w]"
    by (auto simp: simulation_round_def split: sum.splits prod.splits)
  have in2: "p2 \<in> set (players m)" "p2 \<noteq> p1"
    using find_match_Inr [OF p2] by simp_all
  have "\<forall>q. matches_played (h' q) = matches_played (h q) + (if q = p1 \<or> q = p2 then 1 else 0)"
    using simulate_match_Inr(2) [OF sm] in2(2) by auto
  with choice_Inr [OF p1] in2 res simulate_match_Inr(1) [OF sm]
  show ?thesis by blast
qed

lemma sum_list_one_more:
  fixes f :: "nat \<Rightarrow> nat"
  assumes "distinct ps"
  shows "sum_list (map (\<lambda>q. f q + (if q = p then 1 else 0)) ps) =
     sum_list (map f ps) + (if p \<in> set ps then 1 else 0)"
  using assms by (induction ps) auto

lemma sum_list_two_more:
  fixes f g :: "nat \<Rightarrow> nat"
  assumes "distinct ps" and "p1 \<in> set ps" and "p2 \<in> set ps" and "p1 \<noteq> p2"
    and "\<forall>q. g q = f q + (if q = p1 \<or> q = p2 then 1 else 0)"
  shows "sum_list (map g ps) = sum_list (map f ps) + 2"
proof -
  let ?f1 = "\<lambda>q. f q + (if q = p1 then 1 else 0)"
  have geq: "g = (\<lambda>q. ?f1 q + (if q = p2 then 1 else 0))"
    using assms(4,5) by (intro ext) simp
  have "sum_list (map g ps) = sum_list (map ?f1 ps) + 1"
    unfolding geq using sum_list_one_more [OF assms(1), of ?f1 p2] assms(3) by simp
  also have "sum_list (map ?f1 ps) = sum_list (map f ps) + 1"
    using sum_list_one_more [OF assms(1), of f p1] assms(2) by simp
  finally show ?thesis by simp
qed

lemma run_matches_Inr:
  "run_matches m ds (h, res) = Inr (h', res') \<Longrightarrow> distinct (players m) \<Longrightarrow>
   sum_list (map (\<lambda>q. matches_played (h' q)) (players m)) =
     sum_list (map (\<lambda>q. matches_played (h q)) (players m)) + 2 * length ds \<and>
   length res' = length res + length ds \<and>
   set res' \<subseteq> set res \<union> {1, 2}"
proof (induction ds arbitrary: h res)
  case Nil
  then show ?case by auto
next
  case (Cons d ds)
  from Cons.prems(1) obtain h1 res1 where r: "simulation_round m d (h, res) = Inr (h1, res1)"
    and rest: "run_matches m ds (h1, res1) = Inr (h', res')"
    by (auto split: sum.splits)
  from simulation_round_Inr [OF r] obtain p1 p2 w where
    s: "p1 \<in> set (players m)" "p2 \<in> set (players m)" "p1 \<noteq> p2" "w = 1 \<or> w = 2" "res1 = res @ [w]"
      "\<forall>q. matches_played (h1 q) = matches_played (h q) + (if q = p1 \<or> q = p2 then 1 else 0)"
    by blast
  have step: "sum_list (map (\<lambda>q. matches_played (h1 q)) (players m)) =
      sum_list (map (\<lambda>q. matches_played (h q)) (players m)) + 2"
    by (rule sum_list_two_more [OF Cons.prems(2) s(1,2,3,6)])
  from Cons.IH [OF rest Cons.prems(2)]
  have ih: "sum_list (map (\<lambda>q. matches_played (h' q)) (players m)) =
      sum_list (map (\<lambda>q. matches_played (h1 q)) (players m)) + 2 * length ds"
    "length res' = length res1 + length ds" "set res' \<subseteq> set res1 \<union> {1, 2}"
    by simp_all
  have "set res1 \<subseteq> set res \<union> {1, 2}"
    using s(4,5) by auto
  with ih(3) have "set res' \<subseteq> set res \<union> {1, 2}"
    by blast
  moreover have "length res' = length res + length (d # ds)"
    using ih(2) s(5) by simp
  moreover have "sum_list (map (\<lambda>q. matches_played (h' q)) (players m)) =
      sum_list (map (\<lambda>q. matches_played (h q)) (players m)) + 2 * length (d # ds)"
    using ih(1) step by simp
  ultimately show ?case by blast
qed

section \<open>Runs short enough not to overflow\<close>

lemma change_bound:
  fixes s e :: real
  assumes "0 \<le> s" "s \<le> 1" "0 < e" "e < 1"
  shows "\<bar>32 * (s - e)\<bar> \<le> 32"
proof -
  have "\<bar>s - e\<bar> \<le> 1"
    using assms by (simp add: abs_le_iff)
  then show ?thesis by simp
qed

lemma update_both_bounded:
  assumes ne: "p1 \<noteq> p2"
    and bound: "\<forall>q. \<bar>rating (h q) - r0\<bar> \<le> B"
    and room: "2 * B + 32 \<le> 123200"
    and s: "0 \<le> s1" "s1 \<le> 1" "0 \<le> s2" "s2 \<le> 1"
  shows "\<exists>cs. snd (update_both h p1 p2 s1 s2) = Inr cs \<and>
     (\<forall>q. \<bar>rating (fst (update_both h p1 p2 s1 s2) q) - r0\<bar> \<le> B + 32)"
proof -
  have b1: "\<bar>rating (h p1) - r0\<bar> \<le> B" and b2: "\<bar>rating (h p2) - r0\<bar> \<le> B"
    using bound by simp_all
  have "rating (h p2) - rating (h p1) \<le> 123200"
    using b1 b2 room by (simp add: abs_le_iff)
  from expected_score_fits [OF this] obtain e1
    where e1: "expected_score (h p1) (rating (h p2)) = Inr e1"
    by blast
  have c1: "\<bar>32 * (s1 - e1)\<bar> \<le> 32"
    using change_bound [OF s(1,2) expected_score_Inr(3,4) [OF e1]] .
  let ?h1 = "h(p1 := with_change (h p1) (32 * (s1 - e1)))"
  have h1: "?h1 p2 = h p2" "rating (?h1 p1) = rating (h p1) + 32 * (s1 - e1)"
    using ne by (simp_all add: with_change_simps)
  have "rating (?h1 p1) - rating (?h1 p2) \<le> 123200"
    unfolding h1 using b1 b2 c1 room by (simp add: abs_le_iff)
  from expected_score_fits [OF this] obtain e2
    where e2: "expected_score (?h1 p2) (rating (?h1 p1)) = Inr e2"
    by blast
  have c2: "\<bar>32 * (s2 - e2)\<bar> \<le> 32"
    using change_bound [OF s(3,4) expected_score_Inr(3,4) [OF e2]] .
  have res: "update_both h p1 p2 s1 s2 =
      (?h1(p2 := with_change (?h1 p2) (32 * (s2 - e2))),
       Inr (32 * (s1 - e1), 32 * (s2 - e2)))"
    using update_both_cases [of h p1 p2 s1 s2] e1 e2 by auto
  have "\<bar>rating (fst (update_both h p1 p2 s1 s2) q) - r0\<bar> \<le> B + 32" for q
  proof -
    consider "q = p1" | "q = p2" | "q \<noteq> p1" "q \<noteq> p2" by blast
    then show ?thesis
    proof cases
      case 1
      then have "rating (fst (update_both h p1 p2 s1 s2) q) = rating (h p1) + 32 * (s1 - e1)"
        unfolding res using ne by (simp add: with_change_simps)
      then show ?thesis using b1 c1 by (simp add: abs_le_iff)
    next
      case 2
      then have "rating (fst (update_both h p1 p2 s1 s2) q) = rating (h p2) + 32 * (s2 - e2)"
        unfolding res using ne by (simp add: with_change_simps)
      then show ?thesis using b2 c2 by (simp add: abs_le_iff)
    next
      case 3
      then have "rating (fst (update_both h p1 p2 s1 s2) q) = rating (h q)"
        unfolding res by simp
      moreover have "\<bar>rating (h q) - r0\<bar> \<le> B"
        using bound by simp
      ultimately show ?thesis by simp
    qed
  qed
  with res show ?thesis by simp
qed

lemma simulate_match_bounded:
  assumes ne: "p1 \<noteq> p2"
    and bound: "\<forall>q. \<bar>rating (h q) - r0\<bar> \<le> B"
    and room: "2 * B + 32 \<le> 123200"
  shows "\<exists>w. snd (simulate_match h r p1 p2) = Inr w \<and>
     (\<forall>q. \<bar>rating (fst (simulate_match h r p1 p2) q) - r0\<bar> \<le> B + 32)"
proof -
  have b1: "\<bar>rating (h p1) - r0\<bar> \<le> B" and b2: "\<bar>rating (h p2) - r0\<bar> \<le> B"
    using bound by simp_all
  have "rating (h p2) - rating (h p1) \<le> 123200"
    using b1 b2 room by (simp add: abs_le_iff)
  from expected_score_fits [OF this] obtain e1
    where e1: "expected_score (h p1) (rating (h p2)) = Inr e1"
    by blast
  show ?thesis
  proof (cases "r < e1")
    case True
    from update_both_bounded [OF ne bound room, where ?s1.0 = 1 and ?s2.0 = 0] obtain cs
      where cs: "snd (update_both h p1 p2 1 0) = Inr cs"
        and bd: "\<forall>q. \<bar>rating (fst (update_both h p1 p2 1 0) q) - r0\<bar> \<le> B + 32"
      by auto
    have "fst (simulate_match h r p1 p2) = fst (update_both h p1 p2 1 0)"
      and "snd (simulate_match h r p1 p2) = Inr 1"
      using simulate_match_cases [of h p1 p2 r] e1 True cs by auto
    with bd show ?thesis by simp
  next
    case False
    from update_both_bounded [OF ne bound room, where ?s1.0 = 0 and ?s2.0 = 1] obtain cs
      where cs: "snd (update_both h p1 p2 0 1) = Inr cs"
        and bd: "\<forall>q. \<bar>rating (fst (update_both h p1 p2 0 1) q) - r0\<bar> \<le> B + 32"
      by auto
    have "fst (simulate_match h r p1 p2) = fst (update_both h p1 p2 0 1)"
      and "snd (simulate_match h r p1 p2) = Inr 2"
      using simulate_match_cases [of h p1 p2 r] e1 False cs by auto
    with bd show ?thesis by simp
  qed
qed

lemma simulation_round_bounded:
  assumes "distinct (players m)" and "2 \<le> length (players m)"
    and bound: "\<forall>q. \<bar>rating (h q) - r0\<bar> \<le> B"
    and room: "2 * B + 32 \<le> 123200"
  shows "\<exists>h' res'. simulation_round m d (h, res) = Inr (h', res') \<and>
     (\<forall>q. \<bar>rating (h' q) - r0\<bar> \<le> B + 32)"
proof -
  have "players m \<noteq> []" using assms(2) by auto
  then obtain p1 where p1: "choice (subject_draw d) (players m) = Inr p1"
    by (simp add: choice_nonempty)
  obtain p2 where p2: "find_match h m (opponent_draw d) p1 = Inr p2"
    using potential_opponents_nonempty [OF assms(1,2), of h p1]
    by (simp add: find_match_def choice_nonempty)
  have ne: "p1 \<noteq> p2"
    using find_match_Inr [OF p2] by simp
  from simulate_match_bounded [OF ne bound room, where r = "outcome_draw d"] obtain w
    where w: "snd (simulate_match h (outcome_draw d) p1 p2) = Inr w"
      and bd: "\<forall>q. \<bar>rating (fst (simulate_match h (outcome_draw d) p1 p2) q) - r0\<bar> \<le> B + 32"
    by auto
  obtain h2 where sm: "simulate_match h (outcome_draw d) p1 p2 = (h2, Inr w)"
    using w by (cases "simulate_match h (outcome_draw d) p1 p2") simp
  have "simulation_round m d (h, res) = Inr (h2, res @ [w])"
    using p1 p2 sm by (simp add: simulation_round_def)
  moreover have "\<forall>q. \<bar>rating (h2 q) - r0\<bar> \<le> B + 32"
    using bd sm by simp
  ultimately show ?thesis by simp
qed

lemma run_matches_bounded:
  assumes "distinct (players m)" and "2 \<le> length (players m)"
  shows "\<forall>q. \<bar>rating (h q) - r0\<bar> \<le> 32 * real n \<Longrightarrow> n + length ds \<le> 1925 \<Longrightarrow>
     \<exists>s'. run_matches m ds (h, res) = Inr s'"
proof (induction ds arbitrary: h res n)
  case Nil
  show ?case by simp
next
  case (Cons d ds)
  have "n \<le> 1924"
    using Cons.prems(2) by simp
  then have "real n \<le> 1924"
    by simp
  then have room: "2 * (32 * real n) + 32 \<le> 123200"
    by simp
  from simulation_round_bounded [OF assms Cons.prems(1) room, where d = d and res = res] obtain h' res'
    where r: "simulation_round m d (h, res) = Inr (h', res')"
      and bd: "\<forall>q. \<bar>rating (h' q) - r0\<bar> \<le> 32 * real n + 32"
    by blast
  have bd': "\<forall>q. \<bar>rating (h' q) - r0\<bar> \<le> 32 * real (Suc n)"
    using bd by (simp add: algebra_simps)
  have "Suc n + length ds \<le> 1925"
    using Cons.prems(2) by simp
  from Cons.IH [OF bd' this, where res = res'] r show ?case
    by simp
qed

section \<open>One run of two players\<close>

lemma upt_two: "[0..<2] = [0, 1]"
  by (simp add: upt_rec)

lemma upt_one: "[0..<1] = [0]"
  by simp

lemma opponents_two_players:
  "potential_opponents h1500 (MatchmakingSystem_init [0, 1] default_rating_range_percentage) 0 = [1]"
  by (simp add: potential_opponents_def MatchmakingSystem_init_def
      default_rating_range_percentage_def h1500_def EloPlayer_init_def)

lemma round_two_players:
  "simulation_round (MatchmakingSystem_init [0, 1] default_rating_range_percentage)
     (first_draws 0) (h1500, []) = Inr (fst (update_both h1500 0 1 1 0), [1])"
proof -
  let ?m = "MatchmakingSystem_init [0, 1] default_rating_range_percentage"
  have p1: "choice (subject_draw (first_draws 0)) (players ?m) = Inr 0"
    by (simp add: choice_def first_draws_def MatchmakingSystem_init_def)
  have p2: "find_match h1500 ?m (opponent_draw (first_draws 0)) 0 = Inr 1"
    unfolding find_match_def opponents_two_players by (simp add: choice_def)
  have sm: "simulate_match h1500 (outcome_draw (first_draws 0)) 0 1 =
      (fst (update_both h1500 0 1 1 0), Inr 1)"
    using match_1500 by (simp add: first_draws_def)
  show ?thesis
    unfolding simulation_round_def fst_conv snd_conv p1 p2 sm sum.case prod.case
    by simp
qed

lemma run_two_players:
  "monte_carlo_elo_simulation first_draws 2 1 1500 =
     Inr ([fst (update_both h1500 0 1 1 0) 0, fst (update_both h1500 0 1 1 0) 1], [1])"
  using round_two_players
  by (simp add: monte_carlo_elo_simulation_def upt_two upt_one Let_def h1500_def)

text \<open>
  C10. Every run that returns has counted \<open>2 * num_matches\<close> matches over its players,
  and its log holds \<open>num_matches\<close> entries, each 1 or 2. Every round that completes adds
  one match to each of two different players of the population and to nobody else, and
  one entry, 1 or 2, to the log. A run with at least two players and at most 1925
  matches returns: its ratings stay too close for the power to overflow.
\<close>

theorem simulation_counts_matches:
  "(2 \<le> num_players \<and> num_matches \<le> 1925 \<longrightarrow>
      (\<exists>ps res. monte_carlo_elo_simulation rng num_players num_matches r0 = Inr (ps, res))) \<and>
   (\<forall>ps res. monte_carlo_elo_simulation rng num_players num_matches r0 = Inr (ps, res) \<longrightarrow>
      sum_list (map matches_played ps) = 2 * num_matches \<and>
      length res = num_matches \<and> (\<forall>w\<in>set res. w = 1 \<or> w = 2)) \<and>
   (\<forall>m d h res h' res'. simulation_round m d (h, res) = Inr (h', res') \<longrightarrow>
      (\<exists>p1 p2 w. p1 \<in> set (players m) \<and> p2 \<in> set (players m) \<and> p1 \<noteq> p2 \<and>
         (w = 1 \<or> w = 2) \<and> res' = res @ [w] \<and>
         (\<forall>q. matches_played (h' q) = matches_played (h q) + (if q = p1 \<or> q = p2 then 1 else 0))))"
proof -
  let ?m = "MatchmakingSystem_init [0..<num_players] default_rating_range_percentage"
  let ?h = "\<lambda>_::nat. EloPlayer_init r0"
  have pl: "players ?m = [0..<num_players]"
    by (simp add: MatchmakingSystem_init_def)
  have a: "\<exists>ps res. monte_carlo_elo_simulation rng num_players num_matches r0 = Inr (ps, res)"
    if "2 \<le> num_players \<and> num_matches \<le> 1925"
  proof -
    have d: "distinct (players ?m)" "2 \<le> length (players ?m)"
      using that by (simp_all add: pl)
    have b0: "\<forall>q. \<bar>rating (?h q) - r0\<bar> \<le> 32 * real (0::nat)"
      by (simp add: EloPlayer_init_def)
    have len: "0 + length (map rng [0..<num_matches]) \<le> 1925"
      using that by simp
    from run_matches_bounded [OF d b0 len, where res = "[]"]
    obtain s' where "run_matches ?m (map rng [0..<num_matches]) (?h, []) = Inr s'"
      by blast
    then show ?thesis
      by (cases s') (simp add: monte_carlo_elo_simulation_def Let_def)
  qed
  have b: "sum_list (map matches_played ps) = 2 * num_matches \<and>
      length res = num_matches \<and> (\<forall>w\<in>set res. w = 1 \<or> w = 2)"
    if "monte_carlo_elo_simulation rng num_players num_matches r0 = Inr (ps, res)" for ps res
  proof -
    from that obtain h' where run: "run_matches ?m (map rng [0..<num_matches]) (?h, []) = Inr (h', res)"
      and ps: "ps = map h' [0..<num_players]"
      by (auto simp: monte_carlo_elo_simulation_def Let_def split: sum.splits)
    have zero: "sum_list (map (\<lambda>q. matches_played (?h q)) [0..<num_players]) = 0"
      by (simp add: EloPlayer_init_def)
    have "distinct (players ?m)"
      by (simp add: pl)
    from run_matches_Inr [OF run this]
    have "sum_list (map (\<lambda>q. matches_played (h' q)) [0..<num_players]) = 2 * num_matches"
      and len: "length res = num_matches" and sub: "set res \<subseteq> {1, 2}"
      unfolding pl zero by simp_all
    then have total: "sum_list (map matches_played ps) = 2 * num_matches"
      unfolding ps by (simp add: comp_def)
    have "\<forall>w\<in>set res. w = 1 \<or> w = 2"
      using sub by auto
    with total len show ?thesis by simp
  qed
  have c: "\<exists>p1 p2 w. p1 \<in> set (players m) \<and> p2 \<in> set (players m) \<and> p1 \<noteq> p2 \<and>
         (w = 1 \<or> w = 2) \<and> res' = res @ [w] \<and>
         (\<forall>q. matches_played (h' q) = matches_played (h q) + (if q = p1 \<or> q = p2 then 1 else 0))"
    if "simulation_round m d (h, res) = Inr (h', res')" for m d h res h' res'
    by (rule simulation_round_Inr [OF that])
  have A: "2 \<le> num_players \<and> num_matches \<le> 1925 \<longrightarrow>
      (\<exists>ps res. monte_carlo_elo_simulation rng num_players num_matches r0 = Inr (ps, res))"
    by (intro impI) (rule a)
  have B: "\<forall>ps res. monte_carlo_elo_simulation rng num_players num_matches r0 = Inr (ps, res) \<longrightarrow>
      sum_list (map matches_played ps) = 2 * num_matches \<and>
      length res = num_matches \<and> (\<forall>w\<in>set res. w = 1 \<or> w = 2)"
    by (intro allI impI) (rule b)
  have C: "\<forall>m d h res h' res'. simulation_round m d (h, res) = Inr (h', res') \<longrightarrow>
      (\<exists>p1 p2 w. p1 \<in> set (players m) \<and> p2 \<in> set (players m) \<and> p1 \<noteq> p2 \<and>
         (w = 1 \<or> w = 2) \<and> res' = res @ [w] \<and>
         (\<forall>q. matches_played (h' q) = matches_played (h q) + (if q = p1 \<or> q = p2 then 1 else 0)))"
    by (intro allI impI) (rule c)
  from A B C show ?thesis
    by (intro conjI)
qed

text \<open>C10, witness: one match between two players.\<close>

theorem simulation_counts_matches_witness:
  "(2::nat) \<le> 2 \<and> (1::nat) \<le> 1925 \<and>
   monte_carlo_elo_simulation first_draws 2 1 1500 =
     Inr ([fst (update_both h1500 0 1 1 0) 0, fst (update_both h1500 0 1 1 0) 1], [1]) \<and>
   sum_list (map matches_played
      [fst (update_both h1500 0 1 1 0) 0, fst (update_both h1500 0 1 1 0) 1]) = 2 * 1"
  using simulation_counts_matches [of 2 1 first_draws 1500] run_two_players by simp

lemma update_1500_1500:
  "update_rating (EloPlayer_init 1500) 1500 1 32 =
     Inr (with_change (EloPlayer_init 1500) 16, 16)"
proof -
  have e: "expected_score (EloPlayer_init 1500) 1500 = Inr (1 / 2)"
    by (simp add: expected_1500_1500 EloPlayer_init_def)
  show ?thesis
    unfolding update_rating_Inr [OF e] by (simp add: with_change_def)
qed

text \<open>C6, witness: a player after one and after two updates, and the two players of a run.\<close>

theorem history_invariant_preserved_witness:
  "history_invariant (EloPlayer_init 1500) \<and>
   update_rating (EloPlayer_init 1500) 1500 1 32 = Inr (with_change (EloPlayer_init 1500) 16, 16) \<and>
   history_invariant (with_change (EloPlayer_init 1500) 16) \<and>
   history_invariant (apply_updates (EloPlayer_init 1500) [(1400, 1, 32), (1600, 0, 16)]) \<and>
   history_invariant (fst (simulate_match h1500 0 0 1) 1) \<and>
   history_invariant (fst (update_both h1500 0 1 1 0) 0)"
  using history_invariant_preserved [of 1500 "[(1400, 1, 32), (1600, 0, 16)]" "EloPlayer_init 1500"
      1500 1 32 h1500 0 0 1 first_draws 2 1]
    run_two_players update_1500_1500
  by (simp add: h1500_def)

end
